theory Spec2Isabelle
  imports Complex_Main "HOL-Library.List_Lexorder" "HOL-Library.Multiset"
    "HOL-Library.Code_Target_Nat"
begin

section \<open>Strings\<close>

text \<open>
  A JavaScript string is a sequence of UTF-16 code units. A code unit is modelled as a
  natural number (a real string only holds values below 65536; a theorem about every
  list of naturals covers them all). \<open>utf16\<close> writes an ASCII literal as such a list.
\<close>

type_synonym jsstring = "nat list"

definition utf16 :: "string \<Rightarrow> jsstring" where
  "utf16 s = map of_char s"

text \<open>
  The character classes of the three regular expressions of \<open>normalizeString\<close>:
  the combining marks U+0300..U+036F, the ASCII letters and digits, and the white space
  class. ECMAScript's white space class is
  WhiteSpace and LineTerminator: TAB, LF, VT, FF, CR, SP, NBSP, U+1680, U+2000..U+200A,
  U+2028, U+2029, U+202F, U+205F, U+3000 and U+FEFF. \<open>String.prototype.trim\<close> strips
  the same set.
\<close>

definition is_combining :: "nat \<Rightarrow> bool" where
  "is_combining c \<longleftrightarrow> 768 \<le> c \<and> c \<le> 879"

definition is_alnum :: "nat \<Rightarrow> bool" where
  "is_alnum c \<longleftrightarrow> (97 \<le> c \<and> c \<le> 122) \<or> (65 \<le> c \<and> c \<le> 90) \<or> (48 \<le> c \<and> c \<le> 57)"

definition is_space :: "nat \<Rightarrow> bool" where
  "is_space c \<longleftrightarrow>
     (9 \<le> c \<and> c \<le> 13) \<or> c = 32 \<or> c = 160 \<or> c = 5760 \<or> (8192 \<le> c \<and> c \<le> 8202) \<or>
     c = 8232 \<or> c = 8233 \<or> c = 8239 \<or> c = 8287 \<or> c = 12288 \<or> c = 65279"

text \<open>
  \<open>toLowerCase\<close> is only ever applied to what the second \<open>replace\<close> leaves: ASCII
  letters, digits and white space. On those the Unicode lower-casing is the ASCII one,
  which is what is written here.
\<close>

definition toLowerCase :: "jsstring \<Rightarrow> jsstring" where
  "toLowerCase s = map (\<lambda>c. if 65 \<le> c \<and> c \<le> 90 then c + 32 else c) s"

definition trim :: "jsstring \<Rightarrow> jsstring" where
  "trim s = rev (dropWhile is_space (rev (dropWhile is_space s)))"

text \<open>
  \<open>split\<close> on runs of white space: the pieces between the maximal runs of white
  space. The empty string gives one empty piece; a string that starts or ends with white
  space gives an empty first or last piece.
\<close>

function split_ws :: "jsstring \<Rightarrow> jsstring list" where
  "split_ws s =
     (let tok = takeWhile (\<lambda>c. \<not> is_space c) s;
          rest = dropWhile (\<lambda>c. \<not> is_space c) s
      in if rest = [] then [tok] else tok # split_ws (dropWhile is_space rest))"
  by pat_completeness auto
termination
proof (relation "measure length")
  show "wf (measure length)" by simp
next
  fix s tok rest :: jsstring
  assume r: "rest = dropWhile (\<lambda>c. \<not> is_space c) s" and ne: "rest \<noteq> []"
  from ne obtain c cs where cs: "rest = c # cs" by (cases rest) auto
  have "dropWhile (\<lambda>c. \<not> is_space c) s = c # cs"
    using r cs by simp
  then have "is_space c"
    using hd_dropWhile [of "\<lambda>c. \<not> is_space c" s] by simp
  then have "dropWhile is_space rest = dropWhile is_space cs"
    using cs by simp
  then have "length (dropWhile is_space rest) \<le> length cs"
    by (simp add: length_dropWhile_le)
  then have "length (dropWhile is_space rest) < length rest"
    using cs by simp
  moreover have "length rest \<le> length s"
    unfolding r by (rule length_dropWhile_le)
  ultimately show "(dropWhile is_space rest, s) \<in> measure length" by simp
qed

declare split_ws.simps [simp del]

fun join :: "jsstring \<Rightarrow> jsstring list \<Rightarrow> jsstring" where
  "join sep [] = []"
| "join sep [x] = x"
| "join sep (x # y # ys) = x @ sep @ join sep (y # ys)"

text \<open>
  \<open>normalizeString\<close>. \<open>String.prototype.normalize("NFD")\<close> is the canonical
  decomposition of the Unicode standard, a table of the JavaScript engine and not of this
  program: it is the parameter \<open>nfd\<close>. \<open>Array.prototype.sort\<close> without a comparator
  orders strings by their code units, lexicographically, which is the order of lists of
  naturals.
\<close>

definition normalizeString :: "(jsstring \<Rightarrow> jsstring) \<Rightarrow> jsstring \<Rightarrow> jsstring" where
  "normalizeString nfd str =
     (if str = [] then []
      else join [32] (sort (split_ws (trim (toLowerCase
             (filter (\<lambda>c. is_alnum c \<or> is_space c)
                (filter (\<lambda>c. \<not> is_combining c) (nfd str))))))))"


text \<open>
  The shape of a normalized key: tokens of lower-case ASCII letters and digits, none of
  them empty, in ascending order and joined by single spaces.
\<close>

definition key_char :: "nat \<Rightarrow> bool" where
  "key_char c \<longleftrightarrow> (97 \<le> c \<and> c \<le> 122) \<or> (48 \<le> c \<and> c \<le> 57)"

definition key_tokens :: "jsstring list \<Rightarrow> bool" where
  "key_tokens ts \<longleftrightarrow> (\<forall>t\<in>set ts. t \<noteq> [] \<and> (\<forall>c\<in>set t. key_char c))"

text \<open>
  What the proofs below need of the canonical decomposition is that it leaves a string of
  ASCII characters as it is.
\<close>

definition nfd_fixes_ascii :: "(jsstring \<Rightarrow> jsstring) \<Rightarrow> bool" where
  "nfd_fixes_ascii nfd \<longleftrightarrow> (\<forall>s. (\<forall>c\<in>set s. c < 128) \<longrightarrow> nfd s = s)"

text \<open>
  For running the program on concrete names: the canonical decomposition on the code
  units below U+0100 (Basic Latin and Latin-1 Supplement), where it replaces an accented
  letter by the letter and its combining mark, as the Unicode character database gives
  it. A code unit from U+0100 on is left as it is by this table.
\<close>

definition latin1_decompositions :: "(nat \<times> nat list) list" where
  "latin1_decompositions =
    [(192, [65, 768]), (193, [65, 769]), (194, [65, 770]), (195, [65, 771]),
     (196, [65, 776]), (197, [65, 778]), (199, [67, 807]), (200, [69, 768]),
     (201, [69, 769]), (202, [69, 770]), (203, [69, 776]), (204, [73, 768]),
     (205, [73, 769]), (206, [73, 770]), (207, [73, 776]), (209, [78, 771]),
     (210, [79, 768]), (211, [79, 769]), (212, [79, 770]), (213, [79, 771]),
     (214, [79, 776]), (217, [85, 768]), (218, [85, 769]), (219, [85, 770]),
     (220, [85, 776]), (221, [89, 769]), (224, [97, 768]), (225, [97, 769]),
     (226, [97, 770]), (227, [97, 771]), (228, [97, 776]), (229, [97, 778]),
     (231, [99, 807]), (232, [101, 768]), (233, [101, 769]), (234, [101, 770]),
     (235, [101, 776]), (236, [105, 768]), (237, [105, 769]), (238, [105, 770]),
     (239, [105, 776]), (241, [110, 771]), (242, [111, 768]), (243, [111, 769]),
     (244, [111, 770]), (245, [111, 771]), (246, [111, 776]), (249, [117, 768]),
     (250, [117, 769]), (251, [117, 770]), (252, [117, 776]), (253, [121, 769]),
     (255, [121, 776])]"

definition nfd_latin1 :: "jsstring \<Rightarrow> jsstring" where
  "nfd_latin1 s =
     concat (map (\<lambda>c. case map_of latin1_decompositions c of None \<Rightarrow> [c] | Some d \<Rightarrow> d) s)"

section \<open>Edit distance\<close>

text \<open>
  \<open>levenshteinDistance\<close> fills a matrix of \<open>length b + 1\<close> rows and
  \<open>length a + 1\<close> columns, a list of rows here. An assignment \<open>row[j] = v\<close> of
  JavaScript overwrites the element when \<open>j\<close> is inside the array and appends it when
  \<open>j\<close> is the array's length; the loops of \<open>levenshteinDistance\<close> assign nowhere else.
  The entries are natural numbers (far below \<open>2 ^ 53\<close>, so the arithmetic on them is
  exact in JavaScript's numbers).
\<close>

definition set_at :: "'a list \<Rightarrow> nat \<Rightarrow> 'a \<Rightarrow> 'a list" where
  "set_at xs j v = (if j < length xs then xs[j := v] else xs @ [v])"

definition init_column :: "jsstring \<Rightarrow> nat list list" where
  "init_column b = map (\<lambda>i. [i]) [0..<length b + 1]"

definition init_row :: "jsstring \<Rightarrow> nat list list \<Rightarrow> nat list list" where
  "init_row a matrix = fold (\<lambda>j m. m[0 := set_at (m ! 0) j j]) [0..<length a + 1] matrix"

definition cell :: "jsstring \<Rightarrow> jsstring \<Rightarrow> nat list list \<Rightarrow> nat \<Rightarrow> nat \<Rightarrow> nat" where
  "cell a b m i j =
     (if b ! (i - 1) = a ! (j - 1) then m ! (i - 1) ! (j - 1)
      else min (m ! (i - 1) ! (j - 1) + 1)
               (min (m ! i ! (j - 1) + 1) (m ! (i - 1) ! j + 1)))"

definition fill_row :: "jsstring \<Rightarrow> jsstring \<Rightarrow> nat \<Rightarrow> nat list list \<Rightarrow> nat list list" where
  "fill_row a b i matrix =
     fold (\<lambda>j m. m[i := set_at (m ! i) j (cell a b m i j)]) [1..<length a + 1] matrix"

definition levenshteinDistance :: "jsstring \<Rightarrow> jsstring \<Rightarrow> nat" where
  "levenshteinDistance a b =
     (let matrix = init_column b;
          matrix = init_row a matrix;
          matrix = fold (fill_row a b) [1..<length b + 1] matrix
      in matrix ! length b ! length a)"

text \<open>
  The recurrence the loops implement, entry by entry: \<open>lev_entry a b i j\<close> is what the
  finished matrix holds in row \<open>i\<close>, column \<open>j\<close>.
\<close>

fun lev_entry :: "jsstring \<Rightarrow> jsstring \<Rightarrow> nat \<Rightarrow> nat \<Rightarrow> nat" where
  "lev_entry a b 0 j = j"
| "lev_entry a b (Suc i) 0 = Suc i"
| "lev_entry a b (Suc i) (Suc j) =
     (if b ! i = a ! j then lev_entry a b i j
      else min (lev_entry a b i j + 1)
               (min (lev_entry a b (Suc i) j + 1) (lev_entry a b i (Suc j) + 1)))"

definition lev_row :: "jsstring \<Rightarrow> jsstring \<Rightarrow> nat \<Rightarrow> nat list" where
  "lev_row a b i = map (lev_entry a b i) [0..<length a + 1]"

section \<open>JavaScript numbers\<close>

text \<open>
  A JavaScript number is an IEEE 754 binary64 value, and \<open>/\<close>, \<open>-\<close> and \<open>*\<close> return
  the exact result rounded to the nearest such value, ties to the even significand.
  The values are modelled as rationals and the rounding as \<open>fl\<close>: for \<open>x\<close> with
  \<open>2 ^ e \<le> \<bar>x\<bar> < 2 ^ (e + 1)\<close> the representable values around \<open>x\<close> are the
  multiples of \<open>2 ^ (e - 52)\<close>. Overflow and subnormal values are left out: the
  similarity score only forms a quotient of two string lengths in \<open>(0, 1]\<close>, its
  difference from 1 and the hundredfold of that.
\<close>

function bitlen :: "int \<Rightarrow> int" where
  "bitlen n = (if n \<le> 0 then 0 else 1 + bitlen (n div 2))"
  by pat_completeness auto
termination
  by (relation "measure nat") auto

declare bitlen.simps [simp del]

definition pow2 :: "int \<Rightarrow> rat" where
  "pow2 k = (if 0 \<le> k then 2 ^ nat k else 1 / 2 ^ nat (- k))"

definition expo :: "rat \<Rightarrow> int" where
  "expo x =
     (let (n, d) = quotient_of x;
          g = bitlen n - bitlen d
      in if pow2 g \<le> x then g else g - 1)"

definition round_half_even :: "rat \<Rightarrow> int" where
  "round_half_even x =
     (let f = \<lfloor>x\<rfloor>; r = x - of_int f
      in if r < 1 / 2 then f else if 1 / 2 < r then f + 1
         else if even f then f else f + 1)"

definition fl_pos :: "rat \<Rightarrow> rat" where
  "fl_pos x = (let e = expo x in of_int (round_half_even (x * pow2 (52 - e))) * pow2 (e - 52))"

definition fl :: "rat \<Rightarrow> rat" where
  "fl x = (if x = 0 then 0 else if x < 0 then - fl_pos (- x) else fl_pos x)"

text \<open>\<open>Math.round\<close>: the nearest integer, a half rounded towards plus infinity.\<close>

definition Math_round :: "rat \<Rightarrow> int" where
  "Math_round x = \<lfloor>x + 1 / 2\<rfloor>"

section \<open>Similarity and best match\<close>

definition calculateSimilarity :: "(jsstring \<Rightarrow> jsstring) \<Rightarrow> jsstring \<Rightarrow> jsstring \<Rightarrow> int" where
  "calculateSimilarity nfd s1 s2 =
     (let norm1 = normalizeString nfd s1;
          norm2 = normalizeString nfd s2
      in if norm1 = [] \<or> norm2 = [] then 0
         else if norm1 = norm2 then 100
         else let distance = levenshteinDistance norm1 norm2;
                  maxLength = max (length norm1) (length norm2)
              in if maxLength = 0 then 100
                 else let similarity =
                            fl (fl (1 - fl (of_nat distance / of_nat maxLength)) * 100)
                      in Math_round similarity)"

text \<open>
  The score as the specification words it, to compare with the code: the percentage
  \<open>(1 - distance / max_len) * 100\<close> in exact arithmetic, rounded to the nearest
  integer with a half rounded up, and clamped to the range from 0 to 100.
\<close>

definition round_half_up :: "rat \<Rightarrow> int" where
  "round_half_up x = \<lfloor>x + 1 / 2\<rfloor>"

definition similarity_spec :: "nat \<Rightarrow> nat \<Rightarrow> int" where
  "similarity_spec distance max_len =
     max 0 (min 100 (round_half_up ((1 - of_nat distance / of_nat max_len) * 100)))"

datatype matched = Name | Alias

text \<open>
  \<open>Math.max\<close> of the spread score array; \<open>getBestMatchScore\<close> only calls it on a
  non-empty array.
\<close>

fun Math_max :: "int list \<Rightarrow> int" where
  "Math_max (x # xs) = fold max xs x"

definition getBestMatchScore ::
  "(jsstring \<Rightarrow> jsstring) \<Rightarrow> jsstring \<Rightarrow> jsstring \<Rightarrow> jsstring list \<Rightarrow> int \<times> matched" where
  "getBestMatchScore nfd query name aliases =
     (let nameScore = calculateSimilarity nfd query name;
          maxAliasScore =
            (if length aliases > 0
             then Math_max (map (\<lambda>alias. calculateSimilarity nfd query alias) aliases)
             else 0);
          finalScore = max nameScore maxAliasScore;
          matchedOn = (if maxAliasScore > nameScore then Alias else Name)
      in (finalScore, matchedOn))"


section \<open>The screening data\<close>

text \<open>
  The interfaces of the sanctions service. \<open>SanctionedPerson\<close> and
  \<open>SanctionedEntity\<close> share the fields that the record \<open>Sanctioned\<close> holds (the
  field \<open>id\<close> is \<open>ident\<close> here and \<open>notes\<close> is \<open>notes'\<close>); a nullable
  string is an option.
\<close>

record Sanctioned =
  ident :: int
  source_country :: jsstring
  source_reference :: "jsstring option"
  aliases :: "jsstring list"
  designation_date :: "jsstring option"
  end_date :: "jsstring option"
  created_at :: jsstring
  updated_at :: jsstring

record SanctionedPerson = Sanctioned +
  source_id :: "jsstring option"
  last_name :: "jsstring option"
  first_name :: "jsstring option"
  full_name :: jsstring
  gender :: "jsstring option"
  date_of_birth :: "jsstring option"
  date_of_birth_approx :: bool
  place_of_birth :: "jsstring option"
  nationality :: "jsstring option"
  profession :: "jsstring option"
  phone_numbers :: "jsstring list"
  designation_reason :: "jsstring option"
  notes' :: "jsstring option"

record SanctionedEntity = Sanctioned +
  entity_type :: "jsstring option"
  name :: jsstring
  leader :: "jsstring option"
  deputy_leader :: "jsstring option"
  coordinator_burkina :: "jsstring option"
  creation_date :: "jsstring option"
  creation_place :: "jsstring option"
  bf_faction_leaders :: "jsstring list"
  bf_zone_leaders :: "jsstring list"
  affiliated_groups :: "jsstring list"
  responsible_gourma_burkina :: "jsstring option"

datatype TargetType = Person | Entity | All_targets

record SearchParams =
  query :: jsstring
  targetType :: TargetType
  sourceCountries :: "jsstring list"
  fuzzyThreshold :: int

text \<open>
  \<open>MatchResult\<close> is the union of \<open>PersonMatchResult\<close> and \<open>EntityMatchResult\<close>;
  the constructor is the field \<open>type\<close>.
\<close>

datatype MatchResult =
    PersonMatchResult SanctionedPerson int matched
  | EntityMatchResult SanctionedEntity int matched

fun score :: "MatchResult \<Rightarrow> int" where
  "score (PersonMatchResult item s m) = s"
| "score (EntityMatchResult item s m) = s"

fun matchedOn :: "MatchResult \<Rightarrow> matched" where
  "matchedOn (PersonMatchResult item s m) = m"
| "matchedOn (EntityMatchResult item s m) = m"

section \<open>The screening\<close>

text \<open>
  \<open>Array.prototype.sort\<close> with a comparator is a stable sort (ECMAScript 2019): an
  insertion sort that puts an element before the first one it does not compare
  greater than.
\<close>

fun insert_cmp :: "('a \<Rightarrow> 'a \<Rightarrow> int) \<Rightarrow> 'a \<Rightarrow> 'a list \<Rightarrow> 'a list" where
  "insert_cmp cmp x [] = [x]"
| "insert_cmp cmp x (y # ys) = (if cmp x y \<le> 0 then x # y # ys else y # insert_cmp cmp x ys)"

definition Array_sort :: "('a \<Rightarrow> 'a \<Rightarrow> int) \<Rightarrow> 'a list \<Rightarrow> 'a list" where
  "Array_sort cmp xs = foldr (insert_cmp cmp) xs []"

text \<open>
  The two loops of \<open>handleSearch\<close>; \<open>results.push\<close> appends. The field
  \<open>aliases\<close> is an array by its type, so that \<open>aliases || []\<close> is \<open>aliases\<close>.
\<close>

definition search_persons ::
  "(jsstring \<Rightarrow> jsstring) \<Rightarrow> SearchParams \<Rightarrow> SanctionedPerson list \<Rightarrow> MatchResult list \<Rightarrow>
   MatchResult list" where
  "search_persons nfd searchParams persons results =
     fold (\<lambda>person results.
             if source_country person \<notin> set (sourceCountries searchParams) then results
             else let (s, m) = getBestMatchScore nfd (query searchParams)
                                 (full_name person) (aliases person)
                  in if s \<ge> fuzzyThreshold searchParams
                     then results @ [PersonMatchResult person s m] else results)
       persons results"

definition search_entities ::
  "(jsstring \<Rightarrow> jsstring) \<Rightarrow> SearchParams \<Rightarrow> SanctionedEntity list \<Rightarrow> MatchResult list \<Rightarrow>
   MatchResult list" where
  "search_entities nfd searchParams entities results =
     fold (\<lambda>entity results.
             if source_country entity \<notin> set (sourceCountries searchParams) then results
             else let (s, m) = getBestMatchScore nfd (query searchParams)
                                 (name entity) (aliases entity)
                  in if s \<ge> fuzzyThreshold searchParams
                     then results @ [EntityMatchResult entity s m] else results)
       entities results"

text \<open>
  The array \<open>results\<close> as the two loops leave it, before it is sorted: the persons
  that are hits, in the order of \<open>persons\<close>, then the entities that are hits, in the
  order of \<open>entities\<close>.
\<close>

definition scan_results ::
  "(jsstring \<Rightarrow> jsstring) \<Rightarrow> SearchParams \<Rightarrow> SanctionedPerson list \<Rightarrow> SanctionedEntity list \<Rightarrow>
   MatchResult list" where
  "scan_results nfd searchParams persons entities =
     (let results = [];
          results =
            (if targetType searchParams = All_targets \<or> targetType searchParams = Person
             then search_persons nfd searchParams persons results else results);
          results =
            (if targetType searchParams = All_targets \<or> targetType searchParams = Entity
             then search_entities nfd searchParams entities results else results)
      in results)"

text \<open>
  The state that \<open>handleSearch\<close> writes, and \<open>handleSearch\<close> itself: it returns the
  message it passes to \<open>alert\<close>, if any, and the state after the call. The message
  \<open>t.selectAtLeastOne\<close> depends on the language of the page and is a parameter.
  \<open>e.preventDefault()\<close> only stops the browser from submitting the form and is left
  out.
\<close>

record ui_state =
  matches :: "MatchResult list"
  hasSearched :: bool
  comment :: jsstring
  screenerName :: jsstring
  showValidationError :: bool

definition handleSearch ::
  "(jsstring \<Rightarrow> jsstring) \<Rightarrow> jsstring \<Rightarrow> SearchParams \<Rightarrow> SanctionedPerson list \<Rightarrow>
   SanctionedEntity list \<Rightarrow> ui_state \<Rightarrow> jsstring option \<times> ui_state" where
  "handleSearch nfd selectAtLeastOne searchParams persons entities st =
     (if trim (query searchParams) = [] then (None, st)
      else if length (sourceCountries searchParams) = 0 then (Some selectAtLeastOne, st)
      else
        let results = scan_results nfd searchParams persons entities;
            results = Array_sort (\<lambda>a b. score b - score a) results
        in (None, st\<lparr>matches := results, hasSearched := True, comment := [],
                      screenerName := [], showValidationError := False\<rparr>))"

section \<open>Sample records\<close>

text \<open>Two persons, an entity and a state of the page, for running the screening.\<close>

definition person_smith :: SanctionedPerson where
  "person_smith =
     \<lparr>ident = 1, source_country = utf16 ''ML'', source_reference = None, aliases = [],
      designation_date = None, end_date = None, created_at = [], updated_at = [],
      source_id = None, last_name = Some (utf16 ''Smith''), first_name = Some (utf16 ''John''),
      full_name = utf16 ''John Smith'', gender = None, date_of_birth = None,
      date_of_birth_approx = False, place_of_birth = None, nationality = None,
      profession = None, phone_numbers = [], designation_reason = None, notes' = None\<rparr>"

definition person_bande :: SanctionedPerson where
  "person_bande =
     \<lparr>ident = 2, source_country = utf16 ''BF'', source_reference = None,
      aliases = [utf16 ''Balobo'', utf16 ''Jon Smith''],
      designation_date = None, end_date = None, created_at = [], updated_at = [],
      source_id = None, last_name = Some (utf16 ''BANDE''), first_name = Some (utf16 ''Hama''),
      full_name = utf16 ''BANDE Hama'', gender = None, date_of_birth = None,
      date_of_birth_approx = False, place_of_birth = None, nationality = None,
      profession = None, phone_numbers = [], designation_reason = None, notes' = None\<rparr>"

definition entity_smith :: SanctionedEntity where
  "entity_smith =
     \<lparr>ident = 1, source_country = utf16 ''NE'', source_reference = None,
      aliases = [utf16 ''Smith Jon'', []],
      designation_date = None, end_date = None, created_at = [], updated_at = [],
      entity_type = None, name = utf16 ''Smith Trading'', leader = None,
      deputy_leader = None, coordinator_burkina = None, creation_date = None,
      creation_place = None, bf_faction_leaders = [], bf_zone_leaders = [],
      affiliated_groups = [], responsible_gourma_burkina = None\<rparr>"

definition state0 :: ui_state where
  "state0 = \<lparr>matches = [], hasSearched = False, comment = utf16 ''seen'',
             screenerName = utf16 ''A'', showValidationError = False\<rparr>"

definition params :: "string \<Rightarrow> TargetType \<Rightarrow> string list \<Rightarrow> int \<Rightarrow> SearchParams" where
  "params q t cs n =
     \<lparr>query = utf16 q, targetType = t, sourceCountries = map utf16 cs, fuzzyThreshold = n\<rparr>"

section \<open>The Latin-1 decomposition leaves ASCII alone\<close>

lemma nfd_latin1_ascii: "\<forall>c\<in>set s. c < 128 \<Longrightarrow> nfd_latin1 s = s"
proof (induction s)
  case Nil
  show ?case by (simp add: nfd_latin1_def)
next
  case (Cons c s)
  then have c: "c < 128" and s: "nfd_latin1 s = s" by simp_all
  have "c \<notin> fst ` set latin1_decompositions"
    using c by (auto simp add: latin1_decompositions_def)
  then have "map_of latin1_decompositions c = None"
    by (simp add: map_of_eq_None_iff)
  then show ?case
    using s by (simp add: nfd_latin1_def)
qed

lemma nfd_latin1_fixes_ascii: "nfd_fixes_ascii nfd_latin1"
  unfolding nfd_fixes_ascii_def using nfd_latin1_ascii by blast

section \<open>Similarity of empty and of equal keys\<close>

text \<open>
  C6: for every string \<open>s\<close>, the similarity of \<open>s\<close> and the empty string is 0,
  whichever of the two comes first and also when \<open>s\<close> is empty itself; so an empty
  alias scores 0 against every query, never 100.
\<close>

theorem similarity_empty:
  "calculateSimilarity nfd s [] = 0 \<and> calculateSimilarity nfd [] s = 0
   \<and> calculateSimilarity nfd s [] \<noteq> 100"
  by (simp add: calculateSimilarity_def normalizeString_def Let_def)

theorem similarity_empty_witness:
  "calculateSimilarity nfd_latin1 (utf16 ''Balobo'') [] = 0
   \<and> calculateSimilarity nfd_latin1 [] (utf16 ''Balobo'') = 0
   \<and> calculateSimilarity nfd_latin1 [] [] = 0"
  using similarity_empty [of nfd_latin1 "utf16 ''Balobo''"] similarity_empty [of nfd_latin1 "[]"]
  by simp

text \<open>
  C5: the similarity of a string with itself is 100 when its normalized key is not
  empty. A non-empty string whose key is empty (punctuation only, say) scores 0 with
  itself: the test for an empty key comes before the test for equal keys.
\<close>

theorem similarity_self:
  "(normalizeString nfd s \<noteq> [] \<longrightarrow> calculateSimilarity nfd s s = 100)
   \<and> (normalizeString nfd s = [] \<longrightarrow> calculateSimilarity nfd s s = 0)"
  by (simp add: calculateSimilarity_def Let_def)

theorem similarity_self_witness:
  "normalizeString nfd_latin1 (utf16 ''BANDE Hama'') \<noteq> []
   \<and> calculateSimilarity nfd_latin1 (utf16 ''BANDE Hama'') (utf16 ''BANDE Hama'') = 100"
proof -
  have h: "normalizeString nfd_latin1 (utf16 ''BANDE Hama'') \<noteq> []"
    by code_simp
  then show ?thesis
    using similarity_self [of nfd_latin1 "utf16 ''BANDE Hama''"] by blast
qed

theorem similarity_self_counterexample:
  "utf16 ''!'' \<noteq> [] \<and> calculateSimilarity nfd_latin1 (utf16 ''!'') (utf16 ''!'') = 0"
  by code_simp

section \<open>Best match over a name and its aliases\<close>

lemma Math_max_Max: "xs \<noteq> [] \<Longrightarrow> Math_max xs = Max (set xs)"
proof (cases xs)
  case Nil
  assume "xs \<noteq> []"
  with Nil show ?thesis by simp
next
  case (Cons a list)
  show ?thesis
    unfolding Cons Math_max.simps by (rule Max.set_eq_fold [symmetric])
qed

text \<open>
  C2: the score of \<open>getBestMatchScore\<close> is the maximum of the name's similarity and
  the greatest alias similarity (0 when there is no alias); the match is reported on
  the alias exactly when the greatest alias similarity is strictly greater than the
  name's, and on the name otherwise (a tie, or no alias).
\<close>

theorem best_match_max:
  "fst (getBestMatchScore nfd q n as) =
     max (calculateSimilarity nfd q n)
         (if as = [] then 0 else Max (calculateSimilarity nfd q ` set as))
   \<and> (snd (getBestMatchScore nfd q n as) = Alias \<longleftrightarrow>
        calculateSimilarity nfd q n
          < (if as = [] then 0 else Max (calculateSimilarity nfd q ` set as)))
   \<and> (snd (getBestMatchScore nfd q n as) = Name \<longleftrightarrow>
        (if as = [] then 0 else Max (calculateSimilarity nfd q ` set as))
          \<le> calculateSimilarity nfd q n)"
proof -
  define M where "M = (if as = [] then 0 else Max (calculateSimilarity nfd q ` set as))"
  have "(if length as > 0 then Math_max (map (\<lambda>alias. calculateSimilarity nfd q alias) as)
         else 0) = M"
    unfolding M_def by (simp add: Math_max_Max)
  then have "getBestMatchScore nfd q n as =
      (max (calculateSimilarity nfd q n) M,
       if M > calculateSimilarity nfd q n then Alias else Name)"
    by (simp add: getBestMatchScore_def Let_def)
  then show ?thesis
    unfolding M_def [symmetric] by (simp add: not_less)
qed

theorem best_match_max_witness:
  "getBestMatchScore nfd_latin1 (utf16 ''Bande Hama'') (utf16 ''BANDE Hama'') [utf16 ''Balobo'']
     = (100, Name)
   \<and> getBestMatchScore nfd_latin1 (utf16 ''Balobo'') (utf16 ''BANDE Hama'') [utf16 ''Balobo'']
     = (100, Alias)
   \<and> getBestMatchScore nfd_latin1 (utf16 ''Balobo'') (utf16 ''BANDE Hama'') [] = (20, Name)"
proof -
  have a: "calculateSimilarity nfd_latin1 (utf16 ''Bande Hama'') (utf16 ''BANDE Hama'') = 100"
    by code_simp
  have b: "calculateSimilarity nfd_latin1 (utf16 ''Bande Hama'') (utf16 ''Balobo'') = 20"
    by code_simp
  have c: "calculateSimilarity nfd_latin1 (utf16 ''Balobo'') (utf16 ''BANDE Hama'') = 20"
    by code_simp
  have d: "calculateSimilarity nfd_latin1 (utf16 ''Balobo'') (utf16 ''Balobo'') = 100"
    by code_simp
  show ?thesis
    using
      best_match_max [of nfd_latin1 "utf16 ''Bande Hama''" "utf16 ''BANDE Hama''"
        "[utf16 ''Balobo'']"]
      best_match_max [of nfd_latin1 "utf16 ''Balobo''" "utf16 ''BANDE Hama''"
        "[utf16 ''Balobo'']"]
      best_match_max [of nfd_latin1 "utf16 ''Balobo''" "utf16 ''BANDE Hama''" "[]"]
      a b c d
    by (simp add: prod_eq_iff)
qed

section \<open>Validation of the query and of the source lists\<close>

lemma trim_empty_iff: "trim s = [] \<longleftrightarrow> (\<forall>c\<in>set s. is_space c)"
proof
  assume "trim s = []"
  then have "dropWhile is_space (rev (dropWhile is_space s)) = []"
    by (simp add: trim_def)
  then have all: "\<forall>c\<in>set (dropWhile is_space s). is_space c"
    by (simp add: dropWhile_eq_Nil_conv)
  have "dropWhile is_space s = []"
  proof (rule ccontr)
    assume ne: "dropWhile is_space s \<noteq> []"
    then have "\<not> is_space (hd (dropWhile is_space s))"
      by (rule hd_dropWhile)
    moreover have "hd (dropWhile is_space s) \<in> set (dropWhile is_space s)"
      using ne by simp
    ultimately show False using all by blast
  qed
  then show "\<forall>c\<in>set s. is_space c"
    by (simp add: dropWhile_eq_Nil_conv)
next
  assume "\<forall>c\<in>set s. is_space c"
  then have "dropWhile is_space s = []"
    by (simp add: dropWhile_eq_Nil_conv)
  then show "trim s = []"
    unfolding trim_def by (simp only: rev.simps dropWhile.simps)
qed

text \<open>
  C8: a call whose query text is empty or white space only returns at once: nothing is
  scanned (the outcome is the same whatever the persons and entities are), the matches
  and the rest of the state stay as they were, so such a query never matches everything.
  The call raises no alert either: it gives the caller no signal.
\<close>

theorem blank_query_ignored:
  assumes "\<forall>c\<in>set (query sp). is_space c"
  shows "handleSearch nfd msg sp persons entities st = (None, st)"
  using assms by (simp add: handleSearch_def trim_empty_iff)

lemma blank3: "\<forall>c\<in>set (query (params ''   '' All_targets [''ML''] 70)). is_space c"
  by (simp add: params_def utf16_def is_space_def)

theorem blank_query_ignored_witness:
  "query (params ''   '' All_targets [''ML''] 70) = [32, 32, 32]
   \<and> handleSearch nfd_latin1 (utf16 ''select a list'') (params ''   '' All_targets [''ML''] 70)
        [person_smith] [entity_smith] state0 = (None, state0)"
  using blank_query_ignored [OF blank3] by (simp add: params_def utf16_def)

theorem blank_query_counterexample:
  "fst (handleSearch nfd_latin1 (utf16 ''select a list'') (params ''   '' All_targets [''ML''] 70)
         [person_smith] [entity_smith] state0) = None
   \<and> snd (handleSearch nfd_latin1 (utf16 ''select a list'') (params ''   '' All_targets [''ML''] 70)
         [person_smith] [entity_smith] state0) = state0"
  by (simp add: handleSearch_def params_def utf16_def trim_def is_space_def)

text \<open>
  C4: a screening call with an empty list of source countries raises the alert
  \<open>selectAtLeastOne\<close> and leaves the state as it was, whatever the persons and
  entities are: nothing is scanned and no empty result list is stored. Every call that
  scans raises no alert and sets \<open>hasSearched\<close>, so the caller tells the two
  outcomes apart. A screening call has some query text: the query is validated before
  the source countries, in the specification as in the code.
\<close>

theorem no_lists_selected:
  assumes "\<exists>c\<in>set (query sp). \<not> is_space c" and "sourceCountries sp = []"
  shows "handleSearch nfd msg sp persons entities st = (Some msg, st)
     \<and> (\<forall>sp' persons' entities' st'.
          (\<exists>c\<in>set (query sp'). \<not> is_space c) \<and> sourceCountries sp' \<noteq> [] \<longrightarrow>
          fst (handleSearch nfd msg sp' persons' entities' st') = None
          \<and> hasSearched (snd (handleSearch nfd msg sp' persons' entities' st')))"
proof -
  have "trim (query sp) \<noteq> []"
    using assms(1) by (simp add: trim_empty_iff)
  then have a: "handleSearch nfd msg sp persons entities st = (Some msg, st)"
    using assms(2) by (simp add: handleSearch_def)
  have b: "fst (handleSearch nfd msg sp' persons' entities' st') = None
          \<and> hasSearched (snd (handleSearch nfd msg sp' persons' entities' st'))"
    if "\<exists>c\<in>set (query sp'). \<not> is_space c" and "sourceCountries sp' \<noteq> []"
    for sp' persons' entities' st'
  proof -
    have "trim (query sp') \<noteq> []"
      using that(1) by (simp add: trim_empty_iff)
    then show ?thesis
      using that(2) by (simp add: handleSearch_def Let_def)
  qed
  show ?thesis using a b by blast
qed

section \<open>Hits and their order\<close>

lemma search_persons_eq:
  "search_persons nfd sp persons results =
     results @ map (\<lambda>p. PersonMatchResult p
                      (fst (getBestMatchScore nfd (query sp) (full_name p) (aliases p)))
                      (snd (getBestMatchScore nfd (query sp) (full_name p) (aliases p))))
                (filter (\<lambda>p. source_country p \<in> set (sourceCountries sp)
                          \<and> fuzzyThreshold sp
                              \<le> fst (getBestMatchScore nfd (query sp) (full_name p) (aliases p)))
                   persons)"
  unfolding search_persons_def
  by (induction persons arbitrary: results) (simp_all add: case_prod_beta Let_def)

lemma search_entities_eq:
  "search_entities nfd sp entities results =
     results @ map (\<lambda>e. EntityMatchResult e
                      (fst (getBestMatchScore nfd (query sp) (name e) (aliases e)))
                      (snd (getBestMatchScore nfd (query sp) (name e) (aliases e))))
                (filter (\<lambda>e. source_country e \<in> set (sourceCountries sp)
                          \<and> fuzzyThreshold sp
                              \<le> fst (getBestMatchScore nfd (query sp) (name e) (aliases e)))
                   entities)"
  unfolding search_entities_def
  by (induction entities arbitrary: results) (simp_all add: case_prod_beta Let_def)

lemma scan_results_eq:
  "scan_results nfd sp persons entities =
     map (\<lambda>p. PersonMatchResult p
                (fst (getBestMatchScore nfd (query sp) (full_name p) (aliases p)))
                (snd (getBestMatchScore nfd (query sp) (full_name p) (aliases p))))
       (filter (\<lambda>p. (targetType sp = All_targets \<or> targetType sp = Person)
                 \<and> source_country p \<in> set (sourceCountries sp)
                 \<and> fuzzyThreshold sp
                     \<le> fst (getBestMatchScore nfd (query sp) (full_name p) (aliases p)))
          persons)
     @ map (\<lambda>e. EntityMatchResult e
                (fst (getBestMatchScore nfd (query sp) (name e) (aliases e)))
                (snd (getBestMatchScore nfd (query sp) (name e) (aliases e))))
       (filter (\<lambda>e. (targetType sp = All_targets \<or> targetType sp = Entity)
                 \<and> source_country e \<in> set (sourceCountries sp)
                 \<and> fuzzyThreshold sp
                     \<le> fst (getBestMatchScore nfd (query sp) (name e) (aliases e)))
          entities)"
  by (simp add: scan_results_def search_persons_eq search_entities_eq Let_def)

lemma insert_cmp_insort:
  "insert_cmp (\<lambda>a b. score b - score a) x ys = insort_key (\<lambda>r. - score r) x ys"
  by (induction ys) simp_all

lemma Array_sort_sort_key:
  "Array_sort (\<lambda>a b. score b - score a) xs = sort_key (\<lambda>r. - score r) xs"
  unfolding Array_sort_def sort_key_def by (induction xs) (simp_all add: insert_cmp_insort)

lemma handleSearch_scan:
  assumes "trim (query sp) \<noteq> []" and "sourceCountries sp \<noteq> []"
  shows "handleSearch nfd msg sp persons entities st =
     (None, st\<lparr>matches := sort_key (\<lambda>r. - score r) (scan_results nfd sp persons entities),
                hasSearched := True, comment := [], screenerName := [],
                showValidationError := False\<rparr>)"
  using assms by (simp add: handleSearch_def Let_def Array_sort_sort_key)

text \<open>
  C1: for a call with some query text and at least one source country, a person is in
  the matches exactly when it is one of \<open>persons\<close>, the target type is \<open>All\<close> or
  \<open>Person\<close>, its source country is selected and its best-match score is at least the
  threshold; likewise an entity; each with its best-match score and field, and as many
  times as it is scanned. A score equal to the threshold is in, a score one below is out.
\<close>

theorem screening_hits:
  assumes "trim (query sp) \<noteq> []" and "sourceCountries sp \<noteq> []"
  shows
    "(PersonMatchResult p s m \<in> set (matches (snd (handleSearch nfd msg sp persons entities st)))
        \<longleftrightarrow> p \<in> set persons
            \<and> (targetType sp = All_targets \<or> targetType sp = Person)
            \<and> source_country p \<in> set (sourceCountries sp)
            \<and> getBestMatchScore nfd (query sp) (full_name p) (aliases p) = (s, m)
            \<and> fuzzyThreshold sp \<le> s)
     \<and> (EntityMatchResult e s' m' \<in> set (matches (snd (handleSearch nfd msg sp persons entities st)))
        \<longleftrightarrow> e \<in> set entities
            \<and> (targetType sp = All_targets \<or> targetType sp = Entity)
            \<and> source_country e \<in> set (sourceCountries sp)
            \<and> getBestMatchScore nfd (query sp) (name e) (aliases e) = (s', m')
            \<and> fuzzyThreshold sp \<le> s')
     \<and> mset (matches (snd (handleSearch nfd msg sp persons entities st))) =
         mset (map (\<lambda>p. PersonMatchResult p
                      (fst (getBestMatchScore nfd (query sp) (full_name p) (aliases p)))
                      (snd (getBestMatchScore nfd (query sp) (full_name p) (aliases p))))
                (filter (\<lambda>p. (targetType sp = All_targets \<or> targetType sp = Person)
                   \<and> source_country p \<in> set (sourceCountries sp)
                   \<and> fuzzyThreshold sp
                       \<le> fst (getBestMatchScore nfd (query sp) (full_name p) (aliases p)))
                  persons))
         + mset (map (\<lambda>e. EntityMatchResult e
                      (fst (getBestMatchScore nfd (query sp) (name e) (aliases e)))
                      (snd (getBestMatchScore nfd (query sp) (name e) (aliases e))))
                (filter (\<lambda>e. (targetType sp = All_targets \<or> targetType sp = Entity)
                   \<and> source_country e \<in> set (sourceCountries sp)
                   \<and> fuzzyThreshold sp
                       \<le> fst (getBestMatchScore nfd (query sp) (name e) (aliases e)))
                  entities))"
proof -
  have m: "matches (snd (handleSearch nfd msg sp persons entities st)) =
      sort_key (\<lambda>r. - score r) (scan_results nfd sp persons entities)"
    by (simp add: handleSearch_scan [OF assms])
  have p: "PersonMatchResult p s m \<in> set (scan_results nfd sp persons entities)
        \<longleftrightarrow> p \<in> set persons
            \<and> (targetType sp = All_targets \<or> targetType sp = Person)
            \<and> source_country p \<in> set (sourceCountries sp)
            \<and> getBestMatchScore nfd (query sp) (full_name p) (aliases p) = (s, m)
            \<and> fuzzyThreshold sp \<le> s"
    unfolding scan_results_eq by (auto simp add: prod_eq_iff)
  have e: "EntityMatchResult e s' m' \<in> set (scan_results nfd sp persons entities)
        \<longleftrightarrow> e \<in> set entities
            \<and> (targetType sp = All_targets \<or> targetType sp = Entity)
            \<and> source_country e \<in> set (sourceCountries sp)
            \<and> getBestMatchScore nfd (query sp) (name e) (aliases e) = (s', m')
            \<and> fuzzyThreshold sp \<le> s'"
    unfolding scan_results_eq by (auto simp add: prod_eq_iff)
  have l: "mset (sort_key (\<lambda>r. - score r) (scan_results nfd sp persons entities)) =
      mset (scan_results nfd sp persons entities)"
    by simp
  show ?thesis
    unfolding m set_sort l using p e by (simp add: scan_results_eq)
qed

text \<open>
  C3: the matches of a call that scans are in descending order of score; the results
  of any one score are in the order in which the scan found them; and running the same
  call again, on the state the first run left, gives the same matches.
\<close>

theorem ranking_stable:
  assumes "trim (query sp) \<noteq> []" and "sourceCountries sp \<noteq> []"
  shows
    "sorted_wrt (\<lambda>a b. score a \<ge> score b)
       (matches (snd (handleSearch nfd msg sp persons entities st)))
     \<and> (\<forall>k. filter (\<lambda>r. score r = k) (matches (snd (handleSearch nfd msg sp persons entities st)))
            = filter (\<lambda>r. score r = k) (scan_results nfd sp persons entities))
     \<and> matches (snd (handleSearch nfd msg sp persons entities
                       (snd (handleSearch nfd msg sp persons entities st))))
         = matches (snd (handleSearch nfd msg sp persons entities st))"
proof -
  let ?f = "\<lambda>r. - score r"
  let ?xs = "scan_results nfd sp persons entities"
  have m: "matches (snd (handleSearch nfd msg sp persons entities st')) = sort_key ?f ?xs" for st'
    by (simp add: handleSearch_scan [OF assms])
  have "sorted (map ?f (sort_key ?f ?xs))"
    by (rule sorted_sort_key)
  then have a: "sorted_wrt (\<lambda>a b. score a \<ge> score b) (sort_key ?f ?xs)"
    by (simp add: sorted_map)
  have b: "filter (\<lambda>r. score r = k) (sort_key ?f ?xs) = filter (\<lambda>r. score r = k) ?xs" for k
    using sort_key_stable [of ?f "- k" ?xs] by simp
  show ?thesis
    unfolding m using a b by simp
qed

section \<open>The screening on the sample records\<close>

lemma best_smith:
  "getBestMatchScore nfd_latin1 (utf16 ''Jon Smth'') (utf16 ''John Smith'') [] = (80, Name)"
  by code_simp

lemma best_bande:
  "getBestMatchScore nfd_latin1 (utf16 ''Jon Smth'') (utf16 ''BANDE Hama'')
     [utf16 ''Balobo'', utf16 ''Jon Smith''] = (89, Alias)"
  by code_simp

lemma best_entity:
  "getBestMatchScore nfd_latin1 (utf16 ''Jon Smth'') (utf16 ''Smith Trading'')
     [utf16 ''Smith Jon'', []] = (89, Alias)"
  by code_simp

lemma trim_jon: "trim (utf16 ''Jon Smth'') \<noteq> []"
  by (simp add: trim_empty_iff utf16_def is_space_def)

lemma sample_fields:
  "full_name person_smith = utf16 ''John Smith''" "aliases person_smith = []"
  "source_country person_smith = utf16 ''ML''"
  "full_name person_bande = utf16 ''BANDE Hama''"
  "aliases person_bande = [utf16 ''Balobo'', utf16 ''Jon Smith'']"
  "source_country person_bande = utf16 ''BF''"
  "name entity_smith = utf16 ''Smith Trading''" "aliases entity_smith = [utf16 ''Smith Jon'', []]"
  "source_country entity_smith = utf16 ''NE''"
  by (simp_all add: person_smith_def person_bande_def entity_smith_def)

lemma params_fields:
  "query (params q t cs n) = utf16 q" "targetType (params q t cs n) = t"
  "sourceCountries (params q t cs n) = map utf16 cs" "fuzzyThreshold (params q t cs n) = n"
  by (simp_all add: params_def)

lemma countries_distinct:
  "utf16 ''ML'' \<noteq> utf16 ''BF''" "utf16 ''NE'' \<noteq> utf16 ''BF''" "utf16 ''ML'' \<noteq> utf16 ''NE''"
  "utf16 ''BF'' \<noteq> utf16 ''ML''" "utf16 ''BF'' \<noteq> utf16 ''NE''" "utf16 ''NE'' \<noteq> utf16 ''ML''"
  by (simp_all add: utf16_def)

theorem screening_hits_witness:
  "trim (query (params ''Jon Smth'' All_targets [''ML'', ''NE''] 80)) \<noteq> []
   \<and> sourceCountries (params ''Jon Smth'' All_targets [''ML'', ''NE''] 80) \<noteq> []
   \<and> PersonMatchResult person_smith 80 Name
       \<in> set (matches (snd (handleSearch nfd_latin1 (utf16 ''select a list'')
                 (params ''Jon Smth'' All_targets [''ML'', ''NE''] 80)
                 [person_smith, person_bande] [entity_smith] state0)))
   \<and> PersonMatchResult person_bande 89 Alias
       \<notin> set (matches (snd (handleSearch nfd_latin1 (utf16 ''select a list'')
                 (params ''Jon Smth'' All_targets [''ML'', ''NE''] 80)
                 [person_smith, person_bande] [entity_smith] state0)))
   \<and> EntityMatchResult entity_smith 89 Alias
       \<in> set (matches (snd (handleSearch nfd_latin1 (utf16 ''select a list'')
                 (params ''Jon Smth'' All_targets [''ML'', ''NE''] 80)
                 [person_smith, person_bande] [entity_smith] state0)))
   \<and> PersonMatchResult person_smith 80 Name
       \<notin> set (matches (snd (handleSearch nfd_latin1 (utf16 ''select a list'')
                 (params ''Jon Smth'' All_targets [''ML'', ''NE''] 81)
                 [person_smith, person_bande] [entity_smith] state0)))"
proof -
  have h1: "trim (query (params ''Jon Smth'' All_targets [''ML'', ''NE''] n)) \<noteq> []" for n
    by (simp add: params_fields trim_jon)
  have h2: "sourceCountries (params ''Jon Smth'' All_targets [''ML'', ''NE''] n) \<noteq> []" for n
    by (simp add: params_fields)
  note t = screening_hits [where nfd = nfd_latin1 and msg = "utf16 ''select a list''"
      and persons = "[person_smith, person_bande]" and entities = "[entity_smith]"
      and st = state0 and e = entity_smith and s' = 89 and m' = Alias]
  show ?thesis
    using h1 [of 80] h2 [of 80]
      t [where sp = "params ''Jon Smth'' All_targets [''ML'', ''NE''] 80" and p = person_smith
          and s = 80 and m = Name, OF h1 h2]
      t [where sp = "params ''Jon Smth'' All_targets [''ML'', ''NE''] 80" and p = person_bande
          and s = 89 and m = Alias, OF h1 h2]
      t [where sp = "params ''Jon Smth'' All_targets [''ML'', ''NE''] 81" and p = person_smith
          and s = 80 and m = Name, OF h1 h2]
    by (simp add: params_fields sample_fields best_smith best_bande best_entity
          countries_distinct)
qed

lemma scan_sample:
  "scan_results nfd_latin1 (params ''Jon Smth'' All_targets [''ML'', ''NE'', ''BF''] 70)
     [person_smith, person_bande] [entity_smith] =
   [PersonMatchResult person_smith 80 Name, PersonMatchResult person_bande 89 Alias,
    EntityMatchResult entity_smith 89 Alias]"
  by (simp add: scan_results_eq params_fields sample_fields best_smith best_bande best_entity)

theorem ranking_stable_witness:
  "trim (query (params ''Jon Smth'' All_targets [''ML'', ''NE'', ''BF''] 70)) \<noteq> []
   \<and> sourceCountries (params ''Jon Smth'' All_targets [''ML'', ''NE'', ''BF''] 70) \<noteq> []
   \<and> sorted_wrt (\<lambda>a b. score a \<ge> score b)
        (matches (snd (handleSearch nfd_latin1 (utf16 ''select a list'')
           (params ''Jon Smth'' All_targets [''ML'', ''NE'', ''BF''] 70)
           [person_smith, person_bande] [entity_smith] state0)))
   \<and> filter (\<lambda>r. score r = 89)
        (matches (snd (handleSearch nfd_latin1 (utf16 ''select a list'')
           (params ''Jon Smth'' All_targets [''ML'', ''NE'', ''BF''] 70)
           [person_smith, person_bande] [entity_smith] state0)))
      = [PersonMatchResult person_bande 89 Alias, EntityMatchResult entity_smith 89 Alias]"
proof -
  have h1: "trim (query (params ''Jon Smth'' All_targets [''ML'', ''NE'', ''BF''] 70)) \<noteq> []"
    by (simp add: params_fields trim_jon)
  have h2: "sourceCountries (params ''Jon Smth'' All_targets [''ML'', ''NE'', ''BF''] 70) \<noteq> []"
    by (simp add: params_fields)
  show ?thesis
    using h1 h2 ranking_stable [OF h1 h2, where nfd = nfd_latin1
        and msg = "utf16 ''select a list''" and persons = "[person_smith, person_bande]"
        and entities = "[entity_smith]" and st = state0]
    by (simp add: scan_sample)
qed

lemma matches_sample:
  "matches (snd (handleSearch nfd_latin1 (utf16 ''select a list'')
           (params ''Jon Smth'' All_targets [''ML'', ''NE'', ''BF''] 70)
           [person_smith, person_bande] [entity_smith] state0))
   = [PersonMatchResult person_bande 89 Alias, EntityMatchResult entity_smith 89 Alias,
      PersonMatchResult person_smith 80 Name]"
  by (simp add: handleSearch_scan params_fields trim_jon scan_sample)

theorem no_lists_selected_witness:
  "(\<exists>c\<in>set (query (params ''Jon Smth'' All_targets [] 70)). \<not> is_space c)
   \<and> sourceCountries (params ''Jon Smth'' All_targets [] 70) = []
   \<and> handleSearch nfd_latin1 (utf16 ''select a list'') (params ''Jon Smth'' All_targets [] 70)
        [person_smith] [entity_smith] state0 = (Some (utf16 ''select a list''), state0)"
proof -
  have h1: "\<exists>c\<in>set (query (params ''Jon Smth'' All_targets [] 70)). \<not> is_space c"
    by (simp add: params_fields utf16_def is_space_def)
  have h2: "sourceCountries (params ''Jon Smth'' All_targets [] 70) = []"
    by (simp add: params_fields)
  show ?thesis
    using h1 h2 no_lists_selected [OF h1 h2, where nfd = nfd_latin1
        and msg = "utf16 ''select a list''" and persons = "[person_smith]"
        and entities = "[entity_smith]" and st = state0]
    by blast
qed

section \<open>The matrix holds the recurrence\<close>

lemma init_row_fold:
  assumes "m \<noteq> []" and "m ! 0 = [0]"
  shows "fold (\<lambda>j m. m[0 := set_at (m ! 0) j j]) [0..<Suc n] m = m[0 := [0..<Suc n]]"
proof (induction n)
  case 0
  show ?case using assms by (simp add: set_at_def)
next
  case (Suc n)
  have "fold (\<lambda>j m. m[0 := set_at (m ! 0) j j]) [0..<Suc (Suc n)] m =
      (\<lambda>m. m[0 := set_at (m ! 0) (Suc n) (Suc n)])
        (fold (\<lambda>j m. m[0 := set_at (m ! 0) j j]) [0..<Suc n] m)"
    by (simp del: upt_Suc add: upt_Suc_append)
  also have "\<dots> = m[0 := [0..<Suc (Suc n)]]"
    unfolding Suc.IH using assms(1) by (simp add: set_at_def)
  finally show ?case .
qed

lemma init_row_eq:
  "init_row a (init_column b) = (init_column b)[0 := lev_row a b 0]"
proof -
  have "init_column b \<noteq> []" and "init_column b ! 0 = [0]"
    by (simp_all add: init_column_def upt_conv_Cons del: upt_Suc)
  then have "init_row a (init_column b) = (init_column b)[0 := [0..<Suc (length a)]]"
    unfolding init_row_def using init_row_fold [of "init_column b" "length a"] by simp
  moreover have "lev_row a b 0 = [0..<Suc (length a)]"
    unfolding lev_row_def by (simp add: map_idI del: upt_Suc)
  ultimately show ?thesis by simp
qed

lemma cell_eq:
  assumes "i < length m" and "n < length a"
    and "m ! i = lev_row a b i" and "m ! Suc i ! n = lev_entry a b (Suc i) n"
  shows "cell a b m (Suc i) (Suc n) = lev_entry a b (Suc i) (Suc n)"
proof -
  have "m ! i ! n = lev_entry a b i n" and "m ! i ! Suc n = lev_entry a b i (Suc n)"
    using assms(2,3) by (simp_all add: lev_row_def del: upt_Suc)
  then show ?thesis
    using assms(4) by (simp add: cell_def)
qed

lemma fill_row_fold:
  assumes "Suc i < length m" and "m ! i = lev_row a b i" and "m ! Suc i = [Suc i]"
    and "n \<le> length a"
  shows "fold (\<lambda>j m. m[Suc i := set_at (m ! Suc i) j (cell a b m (Suc i) j)]) [1..<Suc n] m =
           m[Suc i := map (lev_entry a b (Suc i)) [0..<Suc n]]"
  using assms(4)
proof (induction n)
  case 0
  have "m[Suc i := [Suc i]] = m"
    using assms(3) by (metis list_update_id)
  then show ?case by simp
next
  case (Suc n)
  let ?f = "\<lambda>j m. m[Suc i := set_at (m ! Suc i) j (cell a b m (Suc i) j)]"
  let ?m = "m[Suc i := map (lev_entry a b (Suc i)) [0..<Suc n]]"
  from Suc have IH: "fold ?f [1..<Suc n] m = ?m" and n: "n < length a" by simp_all
  have row: "?m ! Suc i = map (lev_entry a b (Suc i)) [0..<Suc n]"
    using assms(1) by simp
  have prev: "?m ! i = lev_row a b i"
    using assms(2) by simp
  have "?m ! Suc i ! n = lev_entry a b (Suc i) n"
    unfolding row by (simp del: upt_Suc)
  then have c: "cell a b ?m (Suc i) (Suc n) = lev_entry a b (Suc i) (Suc n)"
    using cell_eq [of i ?m n a b] assms(1) n prev by simp
  have "fold ?f [1..<Suc (Suc n)] m = ?f (Suc n) (fold ?f [1..<Suc n] m)"
    by (simp del: upt_Suc add: upt_Suc_append)
  also have "\<dots> = ?f (Suc n) ?m"
    unfolding IH ..
  also have "\<dots> = m[Suc i := map (lev_entry a b (Suc i)) [0..<Suc (Suc n)]]"
    unfolding c row by (simp add: set_at_def)
  finally show ?case .
qed

lemma fill_row_eq:
  assumes "Suc i < length m" and "m ! i = lev_row a b i" and "m ! Suc i = [Suc i]"
  shows "fill_row a b (Suc i) m = m[Suc i := lev_row a b (Suc i)]"
  unfolding fill_row_def lev_row_def
  using fill_row_fold [OF assms, of "length a"] by simp

lemma fill_rows:
  assumes "k \<le> length b"
  shows "fold (fill_row a b) [1..<Suc k] (init_row a (init_column b)) =
           map (\<lambda>i. if i \<le> k then lev_row a b i else [i]) [0..<length b + 1]"
  using assms
proof (induction k)
  case 0
  show ?case
    unfolding init_row_eq
    by (rule nth_equalityI) (auto simp add: init_column_def nth_list_update simp del: upt_Suc)
next
  case (Suc k)
  let ?m = "map (\<lambda>i. if i \<le> k then lev_row a b i else [i]) [0..<length b + 1]"
  from Suc have IH: "fold (fill_row a b) [1..<Suc k] (init_row a (init_column b)) = ?m"
    and k: "Suc k \<le> length b" by simp_all
  have "fold (fill_row a b) [1..<Suc (Suc k)] (init_row a (init_column b)) =
      fill_row a b (Suc k) (fold (fill_row a b) [1..<Suc k] (init_row a (init_column b)))"
    by (simp del: upt_Suc add: upt_Suc_append)
  also have "\<dots> = fill_row a b (Suc k) ?m"
    unfolding IH ..
  also have "\<dots> = ?m[Suc k := lev_row a b (Suc k)]"
    using k by (intro fill_row_eq) (simp_all del: upt_Suc)
  also have "\<dots> = map (\<lambda>i. if i \<le> Suc k then lev_row a b i else [i]) [0..<length b + 1]"
  proof (rule nth_equalityI)
    show "length (?m[Suc k := lev_row a b (Suc k)]) =
        length (map (\<lambda>i. if i \<le> Suc k then lev_row a b i else [i]) [0..<length b + 1])"
      by simp
  next
    fix i
    assume "i < length (?m[Suc k := lev_row a b (Suc k)])"
    then have i: "i < Suc (length b)" by simp
    show "?m[Suc k := lev_row a b (Suc k)] ! i =
        map (\<lambda>i. if i \<le> Suc k then lev_row a b i else [i]) [0..<length b + 1] ! i"
    proof (cases "i = Suc k")
      case True
      then show ?thesis using i by (simp del: upt_Suc)
    next
      case False
      then have "i \<le> Suc k \<longleftrightarrow> i \<le> k" by arith
      then show ?thesis using i False by (simp add: nth_list_update del: upt_Suc)
    qed
  qed
  finally show ?case .
qed

lemma levenshteinDistance_lev_entry:
  "levenshteinDistance a b = lev_entry a b (length b) (length a)"
proof -
  have "levenshteinDistance a b =
      fold (fill_row a b) [1..<Suc (length b)] (init_row a (init_column b)) ! length b ! length a"
    by (simp add: levenshteinDistance_def Let_def)
  also have "\<dots> = lev_row a b (length b) ! length a"
    unfolding fill_rows [OF order_refl] by (simp del: upt_Suc)
  also have "\<dots> = lev_entry a b (length b) (length a)"
    unfolding lev_row_def by (simp del: upt_Suc)
  finally show ?thesis .
qed

section \<open>Normalized keys\<close>

lemma key_char_props:
  assumes "key_char c"
  shows "\<not> is_space c" "is_alnum c" "\<not> is_combining c" "c < 128" "\<not> (65 \<le> c \<and> c \<le> 90)"
  using assms by (auto simp add: key_char_def is_space_def is_alnum_def is_combining_def)

lemma space_not_upper: "is_space c \<Longrightarrow> \<not> (65 \<le> c \<and> c \<le> 90)"
  by (auto simp add: is_space_def)

lemma lower_char:
  assumes "is_alnum c \<or> is_space c"
  shows "key_char (if 65 \<le> c \<and> c \<le> 90 then c + 32 else c)
         \<or> is_space (if 65 \<le> c \<and> c \<le> 90 then c + 32 else c)"
proof (cases "is_space c")
  case True
  then show ?thesis using space_not_upper [of c] by auto
next
  case False
  with assms have "is_alnum c" by simp
  then show ?thesis by (auto simp add: is_alnum_def key_char_def)
qed

lemma set_trim: "set (trim s) \<subseteq> set s"
proof -
  have "set (trim s) = set (dropWhile is_space (rev (dropWhile is_space s)))"
    by (simp add: trim_def)
  also have "\<dots> \<subseteq> set (rev (dropWhile is_space s))"
    by (auto dest: set_dropWhileD)
  also have "\<dots> \<subseteq> set s"
    by (auto dest: set_dropWhileD)
  finally show ?thesis .
qed

lemma trim_ends:
  assumes "trim s \<noteq> []"
  shows "\<not> is_space (hd (trim s))" and "\<not> is_space (last (trim s))"
proof -
  let ?ys = "dropWhile is_space s"
  let ?zs = "dropWhile is_space (rev ?ys)"
  have t: "trim s = rev ?zs" by (simp add: trim_def)
  with assms have zs: "?zs \<noteq> []" by simp
  then have ys: "?ys \<noteq> []" by (cases "?ys = []") simp_all
  have "last (trim s) = hd ?zs"
    unfolding t using zs by (simp add: last_rev)
  moreover have "\<not> is_space (hd ?zs)"
    using zs by (rule hd_dropWhile)
  ultimately show "\<not> is_space (last (trim s))" by simp
  obtain us where us: "rev ?ys = us @ ?zs"
    by (metis takeWhile_dropWhile_id)
  have "hd (trim s) = last ?zs"
    unfolding t using zs by (simp add: hd_rev)
  also have "\<dots> = last (rev ?ys)"
    using us zs by (metis last_appendR)
  also have "\<dots> = hd ?ys"
    using ys by (simp add: last_rev)
  finally have "hd (trim s) = hd ?ys" .
  moreover have "\<not> is_space (hd ?ys)"
    using ys by (rule hd_dropWhile)
  ultimately show "\<not> is_space (hd (trim s))" by simp
qed

lemma split_ws_tokens:
  assumes "s \<noteq> []" and "\<not> is_space (hd s)" and "\<not> is_space (last s)"
  shows "\<forall>tok\<in>set (split_ws s). tok \<noteq> [] \<and> set tok \<subseteq> set s \<and> (\<forall>c\<in>set tok. \<not> is_space c)"
  using assms
proof (induction s rule: split_ws.induct)
  case (1 s)
  let ?tok = "takeWhile (\<lambda>c. \<not> is_space c) s"
  let ?rest = "dropWhile (\<lambda>c. \<not> is_space c) s"
  let ?next = "dropWhile is_space ?rest"
  from "1.prems" obtain c cs where s: "s = c # cs" and c: "\<not> is_space c"
    by (cases s) auto
  have tok: "?tok \<noteq> [] \<and> set ?tok \<subseteq> set s \<and> (\<forall>c\<in>set ?tok. \<not> is_space c)"
    using s c by (auto dest: set_takeWhileD)
  show ?case
  proof (cases "?rest = []")
    case True
    then have "split_ws s = [?tok]"
      by (subst split_ws.simps) (simp add: Let_def)
    then show ?thesis using tok by simp
  next
    case False
    then have sp: "split_ws s = ?tok # split_ws ?next"
      by (subst split_ws.simps) (simp only: Let_def if_False)
    obtain us where us: "s = us @ ?rest"
      by (metis takeWhile_dropWhile_id)
    obtain vs where vs: "?rest = vs @ ?next"
      by (metis takeWhile_dropWhile_id)
    have last_rest: "last ?rest = last s"
      using us False by (metis last_appendR)
    have next_ne: "?next \<noteq> []"
    proof
      assume "?next = []"
      then have all: "\<forall>x\<in>set ?rest. is_space x"
        by (simp only: dropWhile_eq_Nil_conv)
      have "last ?rest \<in> set ?rest"
        using False by (rule last_in_set)
      with all have "is_space (last ?rest)" by blast
      then have "is_space (last s)" by (simp only: last_rest)
      with "1.prems"(3) show False by blast
    qed
    have hd_next: "\<not> is_space (hd ?next)"
      using next_ne by (rule hd_dropWhile)
    have "last ?next = last ?rest"
      using vs next_ne by (metis last_appendR)
    then have "last ?next = last s"
      by (simp only: last_rest)
    then have last_next: "\<not> is_space (last ?next)"
      using "1.prems"(3) by metis
    have sub: "set ?next \<subseteq> set s"
    proof
      fix x assume "x \<in> set ?next"
      then have "x \<in> set ?rest" by (rule set_dropWhileD)
      then show "x \<in> set s" by (rule set_dropWhileD)
    qed
    have IH: "\<forall>tok\<in>set (split_ws ?next).
        tok \<noteq> [] \<and> set tok \<subseteq> set ?next \<and> (\<forall>c\<in>set tok. \<not> is_space c)"
      using "1.IH" [OF refl refl False next_ne hd_next last_next] .
    show ?thesis
    proof
      fix t assume "t \<in> set (split_ws s)"
      then have "t = ?tok \<or> t \<in> set (split_ws ?next)"
        by (simp only: sp set_simps insert_iff)
      then show "t \<noteq> [] \<and> set t \<subseteq> set s \<and> (\<forall>c\<in>set t. \<not> is_space c)"
      proof
        assume t: "t = ?tok"
        show ?thesis unfolding t by (rule tok)
      next
        assume "t \<in> set (split_ws ?next)"
        with IH have a: "t \<noteq> []" and b: "set t \<subseteq> set ?next"
          and c: "\<forall>c\<in>set t. \<not> is_space c"
          by blast+
        from b sub have "set t \<subseteq> set s" by (rule order_trans)
        with a c show ?thesis by blast
      qed
    qed
  qed
qed

lemma split_ws_not_Nil: "split_ws s \<noteq> []"
  by (subst split_ws.simps) (simp add: Let_def)

lemma join_Cons: "join sep (x # xs) = x @ (if xs = [] then [] else sep @ join sep xs)"
  by (cases xs) simp_all

lemma set_join: "set (join sep ts) \<subseteq> set sep \<union> \<Union> (set ` set ts)"
  by (induction sep ts rule: join.induct) auto

lemma last_join:
  assumes "ts \<noteq> []" and "\<forall>t\<in>set ts. t \<noteq> []"
  shows "join sep ts \<noteq> [] \<and> last (join sep ts) = last (last ts)"
  using assms
proof (induction sep ts rule: join.induct)
  case (1 sep)
  then show ?case by simp
next
  case (2 sep x)
  then show ?case by simp
next
  case (3 sep x y ys)
  then have "join sep (y # ys) \<noteq> [] \<and> last (join sep (y # ys)) = last (last (y # ys))"
    by simp
  then show ?case by simp
qed

lemma split_ws_join:
  assumes "\<forall>t\<in>set (t # ts). t \<noteq> [] \<and> (\<forall>c\<in>set t. \<not> is_space c)"
  shows "split_ws (join [32] (t # ts)) = t # ts"
  using assms
proof (induction ts arbitrary: t)
  case Nil
  then have "\<forall>c\<in>set t. \<not> is_space c" by simp
  then have "takeWhile (\<lambda>c. \<not> is_space c) t = t" and "dropWhile (\<lambda>c. \<not> is_space c) t = []"
    by simp_all
  then show ?case
    by (subst split_ws.simps) (simp add: Let_def)
next
  case (Cons u us)
  let ?r = "join [32] (u # us)"
  have t: "\<forall>c\<in>set t. \<not> is_space c"
    using Cons.prems by simp
  have sp: "is_space 32" by (simp add: is_space_def)
  have IH: "split_ws ?r = u # us"
    using Cons.prems by (intro Cons.IH) simp
  have "u \<noteq> []" and "\<not> is_space (hd u)"
    using Cons.prems by (cases u; simp)+
  then have "?r \<noteq> []" and "\<not> is_space (hd ?r)"
    by (simp_all add: join_Cons)
  then have r: "dropWhile is_space ?r = ?r"
    by (cases ?r) simp_all
  have j: "join [32] (t # u # us) = t @ 32 # ?r" by simp
  have tw: "takeWhile (\<lambda>c. \<not> is_space c) (t @ 32 # ?r) = t"
    using t sp by (simp add: takeWhile_append2 del: join.simps)
  have dw: "dropWhile (\<lambda>c. \<not> is_space c) (t @ 32 # ?r) = 32 # ?r"
    using t sp by (simp add: dropWhile_append2 del: join.simps)
  have "split_ws (t @ 32 # ?r) = t # split_ws (dropWhile is_space (32 # ?r))"
    by (subst split_ws.simps) (simp only: Let_def tw dw list.distinct if_False)
  also have "dropWhile is_space (32 # ?r) = ?r"
    using sp r by (simp del: join.simps)
  finally show ?case
    unfolding j IH .
qed

lemma trim_id:
  assumes "s \<noteq> []" and "\<not> is_space (hd s)" and "\<not> is_space (last s)"
  shows "trim s = s"
proof -
  have a: "dropWhile is_space s = s"
    using assms(1,2) by (cases s) simp_all
  have "rev s \<noteq> []" and "\<not> is_space (hd (rev s))"
    using assms(1,3) by (simp_all add: hd_rev)
  then have "dropWhile is_space (rev s) = rev s"
    by (cases "rev s") simp_all
  then show ?thesis
    by (simp add: trim_def a)
qed

lemma normalizeString_key:
  assumes nfd: "nfd_fixes_ascii nfd"
    and ts: "ts \<noteq> []" and sorted: "sorted ts" and key: "key_tokens ts"
  shows "normalizeString nfd (join [32] ts) = join [32] ts"
proof -
  let ?k = "join [32] ts"
  from ts obtain t ts' where tts: "ts = t # ts'" by (cases ts) auto
  have tok: "\<forall>t\<in>set ts. t \<noteq> [] \<and> (\<forall>c\<in>set t. \<not> is_space c)"
    using key key_char_props(1) unfolding key_tokens_def by blast
  have ne: "\<forall>t\<in>set ts. t \<noteq> []"
    using tok by blast
  have chars: "\<forall>c\<in>set ?k. key_char c \<or> c = 32"
  proof
    fix c assume "c \<in> set ?k"
    then have "c \<in> set [32] \<union> \<Union> (set ` set ts)"
      using set_join [of "[32]" ts] by blast
    then show "key_char c \<or> c = 32"
      using key unfolding key_tokens_def by auto
  qed
  have k_ne: "?k \<noteq> []" and k_last: "last ?k = last (last ts)"
    using last_join [OF ts ne, of "[32]"] by simp_all
  have "t \<noteq> []" using ne tts by simp
  then have k_hd: "hd ?k = hd t"
    unfolding tts by (simp add: join_Cons)
  have "hd t \<in> set t" using \<open>t \<noteq> []\<close> by simp
  then have hd_ns: "\<not> is_space (hd ?k)"
    using tok tts k_hd by simp
  have "last ts \<in> set ts" using ts by simp
  then have "last ts \<noteq> [] \<and> (\<forall>c\<in>set (last ts). \<not> is_space c)"
    using tok by blast
  then have "\<not> is_space (last (last ts))"
    using last_in_set by blast
  then have last_ns: "\<not> is_space (last ?k)"
    using k_last by metis
  have "\<forall>c\<in>set ?k. c < 128"
    using chars key_char_props(4) by auto
  then have 1: "nfd ?k = ?k"
    using nfd unfolding nfd_fixes_ascii_def by blast
  have "\<forall>c\<in>set ?k. \<not> is_combining c"
    using chars key_char_props(3) by (auto simp add: is_combining_def)
  then have 2: "filter (\<lambda>c. \<not> is_combining c) ?k = ?k"
    by (simp only: filter_id_conv)
  have "\<forall>c\<in>set ?k. is_alnum c \<or> is_space c"
    using chars key_char_props(2) by (auto simp add: is_space_def)
  then have 3: "filter (\<lambda>c. is_alnum c \<or> is_space c) ?k = ?k"
    by (simp only: filter_id_conv)
  have "\<forall>c\<in>set ?k. \<not> (65 \<le> c \<and> c \<le> 90)"
    using chars key_char_props(5) by auto
  then have 4: "toLowerCase ?k = ?k"
    unfolding toLowerCase_def by (intro map_idI) simp
  have 5: "trim ?k = ?k"
    using k_ne hd_ns last_ns by (rule trim_id)
  have 6: "split_ws ?k = ts"
    unfolding tts using tok tts by (intro split_ws_join) simp
  have 7: "sort ts = ts"
    using sorted by (rule sorted_sort_id)
  show ?thesis
    unfolding normalizeString_def using k_ne by (simp only: 1 2 3 4 5 6 7 if_False)
qed

lemma normalizeString_form:
  "normalizeString nfd s = []
   \<or> (\<exists>ts. ts \<noteq> [] \<and> sorted ts \<and> key_tokens ts \<and> normalizeString nfd s = join [32] ts)"
proof (cases "s = []")
  case True
  then show ?thesis by (simp add: normalizeString_def)
next
  case False
  let ?u = "toLowerCase (filter (\<lambda>c. is_alnum c \<or> is_space c)
              (filter (\<lambda>c. \<not> is_combining c) (nfd s)))"
  let ?t = "trim ?u"
  have n: "normalizeString nfd s = join [32] (sort (split_ws ?t))"
    using False by (simp add: normalizeString_def)
  show ?thesis
  proof (cases "?t = []")
    case True
    have "split_ws [] = [[]]"
      by (subst split_ws.simps) (simp add: Let_def)
    then have "normalizeString nfd s = []"
      unfolding n True by simp
    then show ?thesis ..
  next
    case ne: False
    have u: "\<forall>c\<in>set ?u. key_char c \<or> is_space c"
    proof
      fix c assume "c \<in> set ?u"
      then have "c \<in> (\<lambda>c. if 65 \<le> c \<and> c \<le> 90 then c + 32 else c) `
          set (filter (\<lambda>c. is_alnum c \<or> is_space c)
                 (filter (\<lambda>c. \<not> is_combining c) (nfd s)))"
        unfolding toLowerCase_def by (simp only: set_map)
      then obtain d
        where d: "d \<in> set (filter (\<lambda>c. is_alnum c \<or> is_space c)
                          (filter (\<lambda>c. \<not> is_combining c) (nfd s)))"
          and c: "c = (if 65 \<le> d \<and> d \<le> 90 then d + 32 else d)"
        by blast
      from d have "is_alnum d \<or> is_space d" by simp
      then show "key_char c \<or> is_space c"
        unfolding c by (rule lower_char)
    qed
    have t: "\<forall>c\<in>set ?t. key_char c \<or> is_space c"
      using u set_trim [of ?u] by blast
    have toks: "\<forall>tok\<in>set (split_ws ?t).
        tok \<noteq> [] \<and> set tok \<subseteq> set ?t \<and> (\<forall>c\<in>set tok. \<not> is_space c)"
      using ne trim_ends [OF ne] by (rule split_ws_tokens)
    have key: "key_tokens (sort (split_ws ?t))"
      unfolding key_tokens_def
    proof
      fix tok assume "tok \<in> set (sort (split_ws ?t))"
      then have "tok \<in> set (split_ws ?t)" by simp
      with toks have a: "tok \<noteq> []" and b: "set tok \<subseteq> set ?t"
        and c: "\<forall>c\<in>set tok. \<not> is_space c"
        by blast+
      have "\<forall>c\<in>set tok. key_char c"
        using b c t by blast
      with a show "tok \<noteq> [] \<and> (\<forall>c\<in>set tok. key_char c)" by blast
    qed
    have "length (sort (split_ws ?t)) = length (split_ws ?t)"
      by (rule length_sort)
    then have "sort (split_ws ?t) \<noteq> []"
      using split_ws_not_Nil [of ?t] by (metis length_0_conv)
    moreover have "sorted (sort (split_ws ?t))"
      by (rule sorted_sort)
    ultimately show ?thesis
      using key n by blast
  qed
qed

text \<open>
  C9: normalizing a normalized key changes nothing: for every string \<open>s\<close>,
  \<open>normalizeString (normalizeString s) = normalizeString s\<close>. (A key is made of ASCII
  characters, which the canonical decomposition leaves alone.)
\<close>

theorem normalize_idempotent:
  assumes "nfd_fixes_ascii nfd"
  shows "normalizeString nfd (normalizeString nfd s) = normalizeString nfd s"
proof -
  from normalizeString_form [of nfd s] show ?thesis
  proof
    assume e: "normalizeString nfd s = []"
    show ?thesis unfolding e by (simp add: normalizeString_def)
  next
    assume "\<exists>ts. ts \<noteq> [] \<and> sorted ts \<and> key_tokens ts \<and> normalizeString nfd s = join [32] ts"
    then obtain ts where ts: "ts \<noteq> []" "sorted ts" "key_tokens ts"
      and k: "normalizeString nfd s = join [32] ts"
      by blast
    show ?thesis
      unfolding k using assms ts by (rule normalizeString_key)
  qed
qed

lemma norm_cote:
  "normalizeString nfd_latin1 (utf16 ''C'' @ [244] @ utf16 ''te  d`Ivoire'') = utf16 ''cote divoire''"
  by code_simp

theorem normalize_idempotent_witness:
  "normalizeString nfd_latin1 (utf16 ''C'' @ [244] @ utf16 ''te  d`Ivoire'') = utf16 ''cote divoire''
   \<and> normalizeString nfd_latin1 (utf16 ''cote divoire'') = utf16 ''cote divoire''"
  using normalize_idempotent [OF nfd_latin1_fixes_ascii,
      of "utf16 ''C'' @ [244] @ utf16 ''te  d`Ivoire''"]
  by (simp only: norm_cote simp_thms)


section \<open>Distances of particular keys\<close>

lemma lev_entry_replicate:
  assumes "i \<le> m" and "j \<le> n"
  shows "lev_entry (replicate n c) (replicate m c) i j = (if i \<le> j then j - i else i - j)"
  using assms
proof (induction i arbitrary: j)
  case 0
  show ?case by simp
next
  case (Suc i)
  show ?case
  proof (cases j)
    case 0
    then show ?thesis by simp
  next
    case (Suc j')
    with Suc.prems have "i < m" and "j' < n" by simp_all
    then have "replicate m c ! i = replicate n c ! j'" by simp
    then have "lev_entry (replicate n c) (replicate m c) (Suc i) (Suc j') =
        lev_entry (replicate n c) (replicate m c) i j'"
      by simp
    also have "\<dots> = (if i \<le> j' then j' - i else i - j')"
      using Suc.prems Suc by (intro Suc.IH) simp_all
    finally show ?thesis using Suc by simp
  qed
qed

lemma single_token_key:
  assumes "nfd_fixes_ascii nfd" and "t \<noteq> []" and "\<forall>c\<in>set t. key_char c"
  shows "normalizeString nfd t = t"
  using normalizeString_key [OF assms(1), of "[t]"] assms(2,3)
  by (simp add: key_tokens_def)

lemma lev_common_suffix:
  assumes "\<forall>i. 0 < i \<and> i < k \<longrightarrow> b ! i = a ! i" and "a ! 0 \<noteq> b ! 0" and "0 < k"
  shows "lev_entry a b k k = 1"
  using assms(1,3)
proof (induction k)
  case 0
  then show ?case by simp
next
  case (Suc k)
  show ?case
  proof (cases k)
    case 0
    then show ?thesis using assms(2) by simp
  next
    case (Suc k')
    then have "b ! k = a ! k" using Suc.prems by simp
    moreover have "lev_entry a b k k = 1"
      using Suc.prems Suc by (intro Suc.IH) simp_all
    ultimately show ?thesis by simp
  qed
qed

section \<open>Scores in floating point\<close>

lemma calculateSimilarity_unequal:
  assumes "normalizeString nfd s1 = k1" and "normalizeString nfd s2 = k2"
    and "k1 \<noteq> []" and "k2 \<noteq> []" and "k1 \<noteq> k2"
  shows "calculateSimilarity nfd s1 s2 =
     Math_round (fl (fl (1 - fl (of_nat (levenshteinDistance k1 k2)
                                  / of_nat (max (length k1) (length k2)))) * 100))"
  using assms by (simp add: calculateSimilarity_def Let_def)

lemma double_score_1_200:
  "Math_round (fl (fl (1 - fl (of_nat (1::nat) / of_nat (200::nat))) * 100)) = 100"
  by code_simp

lemma double_score_17_40:
  "Math_round (fl (fl (1 - fl (of_nat (17::nat) / of_nat (40::nat))) * 100)) = 57"
  by code_simp

lemma spec_score_17_40: "similarity_spec 17 40 = 58"
  by code_simp

lemma one_off_keys:
  assumes "nfd_fixes_ascii nfd"
  shows "normalizeString nfd (98 # replicate 199 97) = 98 # replicate 199 97"
    and "normalizeString nfd (99 # replicate 199 97) = 99 # replicate 199 97"
    and "levenshteinDistance (98 # replicate 199 97) (99 # replicate 199 97) = 1"
    and "calculateSimilarity nfd (98 # replicate 199 97) (99 # replicate 199 97) = 100"
proof -
  let ?a = "98 # replicate 199 (97::nat)"
  let ?b = "99 # replicate 199 (97::nat)"
  show a: "normalizeString nfd ?a = ?a"
    using assms by (rule single_token_key) (simp_all add: key_char_def)
  show b: "normalizeString nfd ?b = ?b"
    using assms by (rule single_token_key) (simp_all add: key_char_def)
  have "lev_entry ?a ?b 200 200 = 1"
  proof (rule lev_common_suffix)
    show "\<forall>i. 0 < i \<and> i < 200 \<longrightarrow> ?b ! i = ?a ! i"
      by (simp add: nth_Cons')
    show "?a ! 0 \<noteq> ?b ! 0" by simp
    show "(0::nat) < 200" by simp
  qed
  then show d: "levenshteinDistance ?a ?b = 1"
    by (simp add: levenshteinDistance_lev_entry)
  have "calculateSimilarity nfd ?a ?b =
     Math_round (fl (fl (1 - fl (of_nat (levenshteinDistance ?a ?b)
                                  / of_nat (max (length ?a) (length ?b)))) * 100))"
    using a b by (rule calculateSimilarity_unequal) simp_all
  also have "\<dots> = Math_round (fl (fl (1 - fl (of_nat (1::nat) / of_nat (200::nat))) * 100))"
    unfolding d by (simp only: length_Cons length_replicate max.idem) simp
  finally show "calculateSimilarity nfd ?a ?b = 100"
    by (simp only: double_score_1_200)
qed

text \<open>
  C10: there are two strings whose normalized keys are not empty and differ, of length
  200 and one substitution apart, for which the similarity is 100: the quotient
  \<open>1 / 200\<close> leaves 99.5, which rounds to 100. A score of 100 does not mean that
  the keys are equal.
\<close>

theorem full_score_without_equal_keys:
  assumes "nfd_fixes_ascii nfd"
  shows "\<exists>s1 s2. normalizeString nfd s1 \<noteq> [] \<and> normalizeString nfd s2 \<noteq> []
           \<and> normalizeString nfd s1 \<noteq> normalizeString nfd s2
           \<and> length (normalizeString nfd s1) = 200 \<and> length (normalizeString nfd s2) = 200
           \<and> levenshteinDistance (normalizeString nfd s1) (normalizeString nfd s2) = 1
           \<and> calculateSimilarity nfd s1 s2 = 100"
proof (intro exI conjI)
  let ?a = "98 # replicate 199 (97::nat)"
  let ?b = "99 # replicate 199 (97::nat)"
  note k = one_off_keys [OF assms]
  show "normalizeString nfd ?a \<noteq> []" unfolding k(1) by simp
  show "normalizeString nfd ?b \<noteq> []" unfolding k(2) by simp
  show "normalizeString nfd ?a \<noteq> normalizeString nfd ?b" unfolding k(1,2) by simp
  show "length (normalizeString nfd ?a) = 200" unfolding k(1) by simp
  show "length (normalizeString nfd ?b) = 200" unfolding k(2) by simp
  show "levenshteinDistance (normalizeString nfd ?a) (normalizeString nfd ?b) = 1"
    unfolding k(1,2) by (rule k(3))
  show "calculateSimilarity nfd ?a ?b = 100" by (rule k(4))
qed

theorem full_score_without_equal_keys_witness:
  "\<exists>s1 s2. normalizeString nfd_latin1 s1 \<noteq> [] \<and> normalizeString nfd_latin1 s2 \<noteq> []
           \<and> normalizeString nfd_latin1 s1 \<noteq> normalizeString nfd_latin1 s2
           \<and> length (normalizeString nfd_latin1 s1) = 200
           \<and> length (normalizeString nfd_latin1 s2) = 200
           \<and> levenshteinDistance (normalizeString nfd_latin1 s1) (normalizeString nfd_latin1 s2) = 1
           \<and> calculateSimilarity nfd_latin1 s1 s2 = 100"
  using full_score_without_equal_keys [OF nfd_latin1_fixes_ascii] .

text \<open>
  C7: the similarity of two non-empty, unequal keys should be
  \<open>(1 - distance / max_len) * 100\<close> rounded to the nearest integer, a half upwards.
  For a key of forty letters \<open>a\<close> and one of twenty-three the distance is 17 and the
  percentage is exactly 57.5, which the specification rounds to 58; the code computes
  in binary floating point, where \<open>(1 - 17 / 40) * 100\<close> comes out just below 57.5,
  and \<open>Math.round\<close> returns 57.
\<close>

theorem half_score_rounds_down:
  "normalizeString nfd_latin1 (replicate 40 97) = replicate 40 97
   \<and> normalizeString nfd_latin1 (replicate 23 97) = replicate 23 97
   \<and> levenshteinDistance (replicate 40 97) (replicate 23 97) = 17
   \<and> max (length (replicate 40 (97::nat))) (length (replicate 23 (97::nat))) = 40
   \<and> calculateSimilarity nfd_latin1 (replicate 40 97) (replicate 23 97) = 57
   \<and> similarity_spec 17 40 = 58"
proof -
  let ?a = "replicate 40 (97::nat)"
  let ?b = "replicate 23 (97::nat)"
  have a: "normalizeString nfd_latin1 ?a = ?a"
    using nfd_latin1_fixes_ascii by (rule single_token_key) (simp_all add: key_char_def)
  have b: "normalizeString nfd_latin1 ?b = ?b"
    using nfd_latin1_fixes_ascii by (rule single_token_key) (simp_all add: key_char_def)
  have "lev_entry ?a ?b 23 40 = (if (23::nat) \<le> 40 then 40 - 23 else 23 - 40)"
    by (rule lev_entry_replicate) simp_all
  then have d: "levenshteinDistance ?a ?b = 17"
    by (simp add: levenshteinDistance_lev_entry)
  have m: "max (length ?a) (length ?b) = 40" by simp
  have "calculateSimilarity nfd_latin1 ?a ?b =
     Math_round (fl (fl (1 - fl (of_nat (levenshteinDistance ?a ?b)
                                  / of_nat (max (length ?a) (length ?b)))) * 100))"
    using a b by (rule calculateSimilarity_unequal) simp_all
  also have "\<dots> = 57"
    unfolding d m by (rule double_score_17_40)
  finally show ?thesis
    using a b d m spec_score_17_40 by blast
qed

end
